theory Spec2Isabelle
  imports Complex_Main "HOL-Library.Word" "HOL-Library.Log_Nat"
begin

section \<open>Strings of the metric\<close>

text \<open>
  A JavaScript string is a sequence of UTF-16 code units, and \<open>.length\<close> counts code
  units. The text functions of \<^verbatim>\<open>examples/readability.js\<close> are embedded over lists of
  16-bit words.
\<close>

type_synonym jschar = "16 word"
type_synonym jsstring = "jschar list"

definition nl :: jschar where
  "nl = 0x0A"

text \<open>
  \<^verbatim>\<open>String.prototype.trim\<close> strips the code units that ECMAScript calls WhiteSpace or
  LineTerminator: TAB, LF, VT, FF, CR, SP, NBSP, U+1680, U+2000 to U+200A, U+2028, U+2029,
  U+202F, U+205F, U+3000 and U+FEFF.
\<close>

definition is_ws :: "jschar \<Rightarrow> bool" where
  "is_ws c = (c = 0x09 \<or> c = 0x0A \<or> c = 0x0B \<or> c = 0x0C \<or> c = 0x0D \<or> c = 0x20
     \<or> c = 0xA0 \<or> c = 0x1680 \<or> (0x2000 \<le> c \<and> c \<le> 0x200A) \<or> c = 0x2028
     \<or> c = 0x2029 \<or> c = 0x202F \<or> c = 0x205F \<or> c = 0x3000 \<or> c = 0xFEFF)"

definition trim :: "jsstring \<Rightarrow> jsstring" where
  "trim l = rev (dropWhile is_ws (rev (dropWhile is_ws l)))"

text \<open>
  \<^verbatim>\<open>str.split('\n')\<close>: the pieces between line feeds; the empty string gives one empty
  piece. \<^verbatim>\<open>lines.join('\n')\<close> puts one line feed between neighbours.
\<close>

fun split_nl :: "jsstring \<Rightarrow> jsstring list" where
  "split_nl [] = [[]]"
| "split_nl (c # cs) =
     (if c = nl then [] # split_nl cs
      else (c # hd (split_nl cs)) # tl (split_nl cs))"

fun join_nl :: "jsstring list \<Rightarrow> jsstring" where
  "join_nl [] = []"
| "join_nl [l] = l"
| "join_nl (l # m # ls) = l @ nl # join_nl (m # ls)"

text \<open>
  \<^verbatim>\<open>function trimLines(str) { const lines = str.split('\n');
      return lines.map(l => l.trim()).join('\n'); }\<close>
\<close>

definition trimLines :: "jsstring \<Rightarrow> jsstring" where
  "trimLines str = (let lines = split_nl str in join_nl (map trim lines))"

text \<open>
  \<^verbatim>\<open>function collapseNewlines(str) { return str.replace(/\n\n+/g, '\n'); }\<close>

  The global replace scans from the left. Where two line feeds start, the greedy match
  takes the whole run of line feeds and one line feed is written for it; anywhere else the
  code unit is copied and the scan moves on by one.
\<close>

function collapseNewlines :: "jsstring \<Rightarrow> jsstring" where
  "collapseNewlines [] = []"
| "collapseNewlines [c] = [c]"
| "collapseNewlines (c # d # cs) =
     (if c = nl \<and> d = nl then nl # collapseNewlines (dropWhile (\<lambda>x. x = nl) cs)
      else c # collapseNewlines (d # cs))"
  by pat_completeness auto
termination
  by (relation "measure length") (auto intro: le_SucI length_dropWhile_le simp: less_Suc_eq_le)

section \<open>Numbers and values\<close>

text \<open>
  A JavaScript number is an IEEE 754 double: a finite value, \<^verbatim>\<open>NaN\<close>, \<^verbatim>\<open>Infinity\<close>
  or \<^verbatim>\<open>-Infinity\<close>. A finite value is kept as the rational number it denotes. The
  sign of zero is outside this embedding (every zero divisor below is \<^verbatim>\<open>+0\<close>).
\<close>

datatype jsnum = Fin rat | NaN | PosInf | NegInf

text \<open>
  An arithmetic operator returns the double nearest to the exact result, ties going to
  the even significand. \<open>expo q\<close> is the binary exponent of a positive rational, the
  integer \<open>e\<close> with \<open>2 powi e \<le> q < 2 powi (e + 1)\<close>. A double has 53
  significant bits, so the unit in the last place at exponent \<open>e\<close> is
  \<open>2 powi (e - 52)\<close>; below exponent -1022 the unit stays that of the subnormal
  numbers. A rounded magnitude of \<open>2 ^ 1024\<close> or more is an infinity.
\<close>

definition round_half_even :: "rat \<Rightarrow> int" where
  "round_half_even x =
     (let f = \<lfloor>x\<rfloor>; d = x - of_int f
      in if d < 1 / 2 then f else if 1 / 2 < d then f + 1
         else if even f then f else f + 1)"

definition expo :: "rat \<Rightarrow> int" where
  "expo q = (if 1 \<le> q then bitlen \<lfloor>q\<rfloor> - 1 else - bitlen (\<lceil>1 / q\<rceil> - 1))"

definition overflow_bound :: rat where
  "overflow_bound = 2 ^ 1024"

definition fl64 :: "rat \<Rightarrow> jsnum" where
  "fl64 q =
     (if q = 0 then Fin 0
      else (let a = \<bar>q\<bar>;
                e = max (expo a) (- 1022);
                u = 2 powi (e - 52);
                r = of_int (round_half_even (a / u)) * u
            in if overflow_bound \<le> r then (if 0 < q then PosInf else NegInf)
               else Fin (if 0 < q then r else - r)))"


text \<open>The operators \<^verbatim>\<open>+\<close>, unary \<^verbatim>\<open>-\<close>, \<^verbatim>\<open>-\<close>, \<^verbatim>\<open>*\<close> and \<^verbatim>\<open>/\<close> on numbers.\<close>

fun js_add :: "jsnum \<Rightarrow> jsnum \<Rightarrow> jsnum" where
  "js_add NaN y = NaN"
| "js_add x NaN = NaN"
| "js_add (Fin a) (Fin b) = fl64 (a + b)"
| "js_add PosInf NegInf = NaN"
| "js_add NegInf PosInf = NaN"
| "js_add PosInf y = PosInf"
| "js_add NegInf y = NegInf"
| "js_add (Fin a) y = y"

fun js_neg :: "jsnum \<Rightarrow> jsnum" where
  "js_neg (Fin a) = Fin (- a)"
| "js_neg NaN = NaN"
| "js_neg PosInf = NegInf"
| "js_neg NegInf = PosInf"

definition js_sub :: "jsnum \<Rightarrow> jsnum \<Rightarrow> jsnum" where
  "js_sub x y = js_add x (js_neg y)"

fun js_mul :: "jsnum \<Rightarrow> jsnum \<Rightarrow> jsnum" where
  "js_mul NaN y = NaN"
| "js_mul x NaN = NaN"
| "js_mul (Fin a) (Fin b) = fl64 (a * b)"
| "js_mul (Fin a) y =
     (if a = 0 then NaN else if (0 < a) = (y = PosInf) then PosInf else NegInf)"
| "js_mul x (Fin b) =
     (if b = 0 then NaN else if (0 < b) = (x = PosInf) then PosInf else NegInf)"
| "js_mul x y = (if x = y then PosInf else NegInf)"

fun js_div :: "jsnum \<Rightarrow> jsnum \<Rightarrow> jsnum" where
  "js_div NaN y = NaN"
| "js_div x NaN = NaN"
| "js_div (Fin a) (Fin b) =
     (if b \<noteq> 0 then fl64 (a / b)
      else if a = 0 then NaN else if 0 < a then PosInf else NegInf)"
| "js_div (Fin a) y = Fin 0"
| "js_div x (Fin b) = (if (0 \<le> b) = (x = PosInf) then PosInf else NegInf)"
| "js_div x y = NaN"



text \<open>\<^verbatim>\<open>x >= 0\<close>: every comparison with \<^verbatim>\<open>NaN\<close> is false.\<close>

fun js_nonneg :: "jsnum \<Rightarrow> bool" where
  "js_nonneg (Fin a) = (0 \<le> a)"
| "js_nonneg PosInf = True"
| "js_nonneg NaN = False"
| "js_nonneg NegInf = False"

text \<open>
  The values a coefficient argument can take: \<^verbatim>\<open>undefined\<close> (also what a missing
  argument reads as), \<^verbatim>\<open>null\<close>, a boolean or a number. Strings and objects are left
  out of the value type. \<open>ToNumber\<close> is the conversion the operator \<^verbatim>\<open>*\<close> applies to
  its operands.
\<close>

datatype jsval = Undefined | Null | Boolean bool | Number jsnum

fun ToNumber :: "jsval \<Rightarrow> jsnum" where
  "ToNumber Undefined = NaN"
| "ToNumber Null = Fin 0"
| "ToNumber (Boolean b) = (if b then Fin 1 else Fin 0)"
| "ToNumber (Number n) = n"

section \<open>Documents, nodes and the rule engine's interface\<close>

text \<open>
  Of a DOM element the metric reads \<^verbatim>\<open>textContent\<close>; of a parsed document,
  \<^verbatim>\<open>firstChild\<close>, which the source notes is always an element in jsdom. A node of the
  rule engine (\<^verbatim>\<open>fnode\<close>) carries its element and the notes stored per type.
\<close>

record element =
  textContent_prop :: jsstring

record document =
  firstChild :: element

record paragraphish_note =
  inlineLength :: jsnum

record fnode =
  element :: element
  noteFor :: "string \<Rightarrow> paragraphish_note"

text \<open>What a \<^verbatim>\<open>props\<close> callback returns: \<^verbatim>\<open>{score: ..., note: ...}\<close>.\<close>

record props_result =
  score_prop :: jsnum
  note_prop :: paragraphish_note

text \<open>
  The rule set that \<^verbatim>\<open>tunedContentFnodes\<close> hands to the engine, as data: each rule is
  a left-hand side and a right-hand side, built by the engine's combinators
  \<^verbatim>\<open>dom\<close>, \<^verbatim>\<open>type\<close>, \<^verbatim>\<open>topTotalingCluster\<close>, \<^verbatim>\<open>props\<close>, \<^verbatim>\<open>score\<close>, \<^verbatim>\<open>out\<close>
  and \<^verbatim>\<open>allThrough\<close>.
\<close>

record cluster_options =
  splittingDistance :: jsval
  differentDepthCost :: jsval
  differentTagCost :: jsval
  sameTagCost :: jsval
  strideCost :: jsval

datatype lhs =
    dom_lhs string
  | type_lhs string
  | type_topTotalingCluster string cluster_options

datatype rhs =
    props_type "fnode \<Rightarrow> props_result" string
  | score_callback "fnode \<Rightarrow> jsnum"
  | score_type jsval string
  | type_rhs string
  | out_allThrough_domSort string

type_synonym rule = "lhs \<times> rhs"
type_synonym ruleset = "rule list"

text \<open>
  The engine and the DOM helpers live in other modules (\<^verbatim>\<open>../index\<close>,
  \<^verbatim>\<open>../utils\<close>); they are parameters here. \<open>against_get rules doc label\<close> stands for
  \<^verbatim>\<open>rules.against(doc).get(label)\<close>.
\<close>

record externals =
  inlineTextLength :: "element \<Rightarrow> nat"
  linkDensity :: "fnode \<Rightarrow> jsnum \<Rightarrow> jsnum"
  against_get :: "ruleset \<Rightarrow> document \<Rightarrow> string \<Rightarrow> fnode list"

section \<open>The extraction pipeline\<close>

text \<open>
  \<^verbatim>\<open>function tunedContentFnodes(coeffLinkDensity = 1.5, coeffParagraphTag = 4.5,
      coeffLength = 2, coeffDifferentDepth = 6.5, coeffDifferentTag = 2,
      coeffSameTag = 0.5, coeffStride = 0)\<close>

  A call passes a list of arguments. A parameter whose argument is missing or
  \<^verbatim>\<open>undefined\<close> takes its default; arguments beyond the seventh are not read.
\<close>

record coefficients =
  coeffLinkDensity :: jsval
  coeffParagraphTag :: jsval
  coeffLength :: jsval
  coeffDifferentDepth :: jsval
  coeffDifferentTag :: jsval
  coeffSameTag :: jsval
  coeffStride :: jsval

definition argument :: "jsval list \<Rightarrow> nat \<Rightarrow> jsval" where
  "argument args i = (if i < length args then args ! i else Undefined)"

definition parameter :: "rat \<Rightarrow> jsval \<Rightarrow> jsval" where
  "parameter dflt v = (case v of Undefined \<Rightarrow> Number (Fin dflt) | _ \<Rightarrow> v)"

definition bind_parameters :: "jsval list \<Rightarrow> coefficients" where
  "bind_parameters args =
     \<lparr> coeffLinkDensity = parameter (3 / 2) (argument args 0),
       coeffParagraphTag = parameter (9 / 2) (argument args 1),
       coeffLength = parameter 2 (argument args 2),
       coeffDifferentDepth = parameter (13 / 2) (argument args 3),
       coeffDifferentTag = parameter 2 (argument args 4),
       coeffSameTag = parameter (1 / 2) (argument args 5),
       coeffStride = parameter 0 (argument args 6) \<rparr>"

text \<open>
  \<^verbatim>\<open>function scoreByLength(fnode) {
      const length = inlineTextLength(fnode.element) * coeffLength;
      return { score: length, note: {inlineLength: length} }; }\<close>
\<close>

definition scoreByLength :: "externals \<Rightarrow> coefficients \<Rightarrow> fnode \<Rightarrow> props_result" where
  "scoreByLength ext co fnode =
     (let len = js_mul (Fin (of_nat (inlineTextLength ext (element fnode))))
                       (ToNumber (coeffLength co))
      in \<lparr> score_prop = len, note_prop = \<lparr> inlineLength = len \<rparr> \<rparr>)"

text \<open>
  \<^verbatim>\<open>fnode => (1 - linkDensity(fnode, fnode.noteFor('paragraphish').inlineLength))
            * coeffLinkDensity\<close>
\<close>

definition scoreByLinkDensity :: "externals \<Rightarrow> coefficients \<Rightarrow> fnode \<Rightarrow> jsnum" where
  "scoreByLinkDensity ext co fnode =
     js_mul (js_sub (Fin 1)
               (linkDensity ext fnode (inlineLength (noteFor fnode ''paragraphish''))))
            (ToNumber (coeffLinkDensity co))"

definition rules :: "externals \<Rightarrow> coefficients \<Rightarrow> ruleset" where
  "rules ext co =
     [ (dom_lhs ''p,div,li,code,blockquote,pre,h1,h2,h3,h4,h5,h6'',
          props_type (scoreByLength ext co) ''paragraphish''),
       (type_lhs ''paragraphish'', score_callback (scoreByLinkDensity ext co)),
       (dom_lhs ''p'', score_type (coeffParagraphTag co) ''paragraphish''),
       (type_topTotalingCluster ''paragraphish''
          \<lparr> splittingDistance = Number (Fin 3),
            differentDepthCost = coeffDifferentDepth co,
            differentTagCost = coeffDifferentTag co,
            sameTagCost = coeffSameTag co,
            strideCost = coeffStride co \<rparr>,
          type_rhs ''content''),
       (type_lhs ''content'', out_allThrough_domSort ''sortedContent'') ]"

text \<open>
  \<^verbatim>\<open>function contentFnodes(doc) { const facts = rules.against(doc);
      return facts.get('sortedContent'); }\<close>, the closure \<^verbatim>\<open>tunedContentFnodes\<close> returns.
\<close>

definition tunedContentFnodes :: "externals \<Rightarrow> jsval list \<Rightarrow> document \<Rightarrow> fnode list" where
  "tunedContentFnodes ext args =
     (let co = bind_parameters args; rs = rules ext co
      in (\<lambda>doc. against_get ext rs doc ''sortedContent''))"

section \<open>The quality metric\<close>

text \<open>
  Modelled from the spec: the edit distance \<^verbatim>\<open>leven\<close> is an imported package whose
  code is not part of the source file. The spec describes it as the function from two
  strings to a non-negative integer ``counting minimum single-character
  insert/delete/substitute operations (standard Levenshtein)''.
\<close>

fun leven :: "jsstring \<Rightarrow> jsstring \<Rightarrow> nat" where
  "leven [] ys = length ys"
| "leven (x # xs) [] = Suc (length xs)"
| "leven (x # xs) (y # ys) =
     min (min (Suc (leven xs (y # ys))) (Suc (leven (x # xs) ys)))
         ((if x = y then 0 else 1) + leven xs ys)"

text \<open>\<^verbatim>\<open>function textContent(dom) { return dom.firstChild.textContent; }\<close>\<close>

definition textContent :: "document \<Rightarrow> jsstring" where
  "textContent doc = textContent_prop (firstChild doc)"

text \<open>
  \<^verbatim>\<open>class DiffStats\<close>. Both totals are sums of string lengths and edit distances,
  kept as naturals: such sums are exact in doubles below \<open>2 ^ 53\<close>.
\<close>

record DiffStats =
  lengthOfExpectedTexts :: nat
  lengthOfDiffs :: nat
  contentFnodes :: "document \<Rightarrow> fnode list"

text \<open>
  \<^verbatim>\<open>constructor(contentFnodes) { this.lengthOfExpectedTexts = 0; this.lengthOfDiffs = 0;
      this.contentFnodes = contentFnodes || tunedContentFnodes(); }\<close>
\<close>

definition DiffStats_new :: "externals \<Rightarrow> (document \<Rightarrow> fnode list) option \<Rightarrow> DiffStats" where
  "DiffStats_new ext cf =
     \<lparr> lengthOfExpectedTexts = 0, lengthOfDiffs = 0,
       contentFnodes = (case cf of Some f \<Rightarrow> f | None \<Rightarrow> tunedContentFnodes ext []) \<rparr>"

definition compare :: "DiffStats \<Rightarrow> document \<Rightarrow> document \<Rightarrow> DiffStats" where
  "compare this expectedDom sourceDom =
     (let expectedText = collapseNewlines (trimLines (textContent expectedDom));
          gotText = collapseNewlines (trimLines (join_nl
             (map (\<lambda>fnode. textContent_prop (element fnode))
                  (contentFnodes this sourceDom))))
      in this \<lparr> lengthOfExpectedTexts := lengthOfExpectedTexts this + length expectedText,
                lengthOfDiffs := lengthOfDiffs this + leven expectedText gotText \<rparr>)"

text \<open>\<^verbatim>\<open>score() { return this.lengthOfDiffs / this.lengthOfExpectedTexts * 100; }\<close>\<close>

definition score :: "DiffStats \<Rightarrow> jsnum" where
  "score this =
     js_mul (js_div (Fin (of_nat (lengthOfDiffs this)))
                    (Fin (of_nat (lengthOfExpectedTexts this))))
            (Fin 100)"

text \<open>
  \<^verbatim>\<open>function deviationScore(docPairs, coeffs = []) {
      const stats = new DiffStats(tunedContentFnodes(...coeffs));
      for (let pair of docPairs) { stats.compare(...pair); }
      return stats.score(); }\<close>

  The loop is \<open>compare_each\<close>; an omitted \<^verbatim>\<open>coeffs\<close> is \<open>None\<close>.
\<close>

fun compare_each :: "DiffStats \<Rightarrow> (document \<times> document) list \<Rightarrow> DiffStats" where
  "compare_each stats [] = stats"
| "compare_each stats (pair # docPairs) =
     compare_each (compare stats (fst pair) (snd pair)) docPairs"

definition deviationScore ::
  "externals \<Rightarrow> (document \<times> document) list \<Rightarrow> jsval list option \<Rightarrow> jsnum" where
  "deviationScore ext docPairs coeffs_opt =
     (let coeffs = (case coeffs_opt of None \<Rightarrow> [] | Some cs \<Rightarrow> cs);
          stats = DiffStats_new ext (Some (tunedContentFnodes ext coeffs))
      in score (compare_each stats docPairs))"

section \<open>The tuner's neighbour function\<close>




section \<open>Notions used in the statements\<close>

text \<open>What \<^verbatim>\<open>compare\<close> computes for one pair: the two normalized texts.\<close>

definition expectedText_of :: "document \<times> document \<Rightarrow> jsstring" where
  "expectedText_of pair = collapseNewlines (trimLines (textContent (fst pair)))"

definition gotText_of :: "(document \<Rightarrow> fnode list) \<Rightarrow> document \<times> document \<Rightarrow> jsstring" where
  "gotText_of cf pair =
     collapseNewlines (trimLines (join_nl
       (map (\<lambda>fnode. textContent_prop (element fnode)) (cf (snd pair)))))"

text \<open>A string in which no two line feeds are neighbours.\<close>

fun no_double_nl :: "jsstring \<Rightarrow> bool" where
  "no_double_nl [] = True"
| "no_double_nl [c] = True"
| "no_double_nl (c # d # cs) = (\<not> (c = nl \<and> d = nl) \<and> no_double_nl (d # cs))"

text \<open>
  On the lines of a text, what replacing each run of two or more line feeds by one line
  feed amounts to: every empty line that is neither the first nor the last line goes.
\<close>

fun drop_inner_blank :: "jsstring list \<Rightarrow> jsstring list" where
  "drop_inner_blank [] = []"
| "drop_inner_blank [l] = [l]"
| "drop_inner_blank (l # m # ls) =
     l # filter (\<lambda>x. x \<noteq> []) (butlast (m # ls)) @ [last (m # ls)]"

text \<open>
  The spec's wording of the second normalization step, on the lines of a text: a run of
  two or more consecutive blank lines becomes a single blank line (and a blank line on
  its own stays).
\<close>

fun spec_collapse_blank_lines :: "jsstring list \<Rightarrow> jsstring list" where
  "spec_collapse_blank_lines [] = []"
| "spec_collapse_blank_lines [l] = [l]"
| "spec_collapse_blank_lines (l # m # ls) =
     (if l = [] \<and> m = [] then spec_collapse_blank_lines (m # ls)
      else l # spec_collapse_blank_lines (m # ls))"

definition spec_normalize :: "jsstring \<Rightarrow> jsstring" where
  "spec_normalize s = join_nl (spec_collapse_blank_lines (map trim (split_nl s)))"

text \<open>The tuner's baseline vector \<^verbatim>\<open>[1.5, 4.5, 2, 6.5, 2, 0.5, 0]\<close>.\<close>

definition default_coeffs :: "jsval list" where
  "default_coeffs =
     [Number (Fin (3 / 2)), Number (Fin (9 / 2)), Number (Fin 2), Number (Fin (13 / 2)),
      Number (Fin 2), Number (Fin (1 / 2)), Number (Fin 0)]"


text \<open>The coefficients a pipeline captures when every parameter takes its default.\<close>

definition default_coefficients :: coefficients where
  "default_coefficients =
     \<lparr> coeffLinkDensity = Number (Fin (3 / 2)), coeffParagraphTag = Number (Fin (9 / 2)),
       coeffLength = Number (Fin 2), coeffDifferentDepth = Number (Fin (13 / 2)),
       coeffDifferentTag = Number (Fin 2), coeffSameTag = Number (Fin (1 / 2)),
       coeffStride = Number (Fin 0) \<rparr>"

subsection \<open>Sample data\<close>

text \<open>
  A stand-in for the engine and the DOM helpers, used where a statement is evaluated on
  concrete input: the inline text length is the length of the element's text, no text is
  link text, and the extraction is the document's root element.
\<close>

definition sample_externals :: externals where
  "sample_externals =
     \<lparr> inlineTextLength = (\<lambda>e. length (textContent_prop e)),
       linkDensity = (\<lambda>fnode n. Fin 0),
       against_get = (\<lambda>rs doc label.
          [\<lparr> element = firstChild doc,
             noteFor = (\<lambda>t. \<lparr> inlineLength = Fin 0 \<rparr>) \<rparr>]) \<rparr>"

definition sample_doc :: "jsstring \<Rightarrow> document" where
  "sample_doc s = \<lparr> firstChild = \<lparr> textContent_prop = s \<rparr> \<rparr>"

text \<open>
  A second stand-in, whose extraction depends on the rule set it is given: it reads the
  bonus of the third rule (the one for \<^verbatim>\<open>p\<close> tags) and extracts the root element
  when that bonus is the number 4.5, and nothing otherwise.
\<close>

definition paragraph_bonus :: "ruleset \<Rightarrow> jsval" where
  "paragraph_bonus rs =
     (case rs of
        [r1, r2, (l, score_type v t), r4, r5] \<Rightarrow> v
      | _ \<Rightarrow> Undefined)"

definition bonus_externals :: externals where
  "bonus_externals =
     \<lparr> inlineTextLength = (\<lambda>e. length (textContent_prop e)),
       linkDensity = (\<lambda>fnode n. Fin 0),
       against_get = (\<lambda>rs doc label.
          if paragraph_bonus rs = Number (Fin (9 / 2))
          then [\<lparr> element = firstChild doc,
                  noteFor = (\<lambda>t. \<lparr> inlineLength = Fin 0 \<rparr>) \<rparr>]
          else []) \<rparr>"

section \<open>Lines, trimming and collapsing\<close>

lemma split_nl_not_Nil: "split_nl s \<noteq> []"
  by (induction s) auto

lemma join_split_nl: "join_nl (split_nl s) = s"
proof (induction s)
  case Nil
  show ?case by simp
next
  case (Cons c cs)
  obtain l ls where sp: "split_nl cs = l # ls"
    using split_nl_not_Nil [of cs] by (cases "split_nl cs") auto
  show ?case
  proof (cases "c = nl")
    case True
    with Cons sp show ?thesis by simp
  next
    case False
    with Cons sp show ?thesis by (cases ls) auto
  qed
qed

lemma split_nl_lines_nl_free: "l \<in> set (split_nl s) \<Longrightarrow> nl \<notin> set l"
proof (induction s arbitrary: l)
  case Nil
  then show ?case by simp
next
  case (Cons c cs)
  obtain m ms where sp: "split_nl cs = m # ms"
    using split_nl_not_Nil [of cs] by (cases "split_nl cs") auto
  from Cons sp show ?case by (auto split: if_splits)
qed

lemma split_nl_append_nl_free:
  "nl \<notin> set l \<Longrightarrow> split_nl (l @ nl # s) = l # split_nl s"
  by (induction l) auto

lemma split_nl_nl_free: "nl \<notin> set l \<Longrightarrow> split_nl l = [l]"
  by (induction l) auto

lemma split_join_nl:
  "ls \<noteq> [] \<Longrightarrow> (\<And>l. l \<in> set ls \<Longrightarrow> nl \<notin> set l) \<Longrightarrow> split_nl (join_nl ls) = ls"
proof (induction ls rule: join_nl.induct)
  case 1
  then show ?case by simp
next
  case (2 l)
  then show ?case by (simp add: split_nl_nl_free)
next
  case (3 l m ls)
  then show ?case by (simp add: split_nl_append_nl_free)
qed

lemma set_trim: "set (trim l) \<subseteq> set l"
proof -
  have "set (trim l) \<subseteq> set (dropWhile is_ws l)"
    unfolding trim_def using set_dropWhileD [of _ is_ws "rev (dropWhile is_ws l)"] by auto
  also have "\<dots> \<subseteq> set l"
    using set_dropWhileD [of _ is_ws l] by auto
  finally show ?thesis .
qed

lemma dropWhile_rev_dropWhile_hd:
  "t = [] \<or> \<not> P (hd t) \<Longrightarrow>
   dropWhile P (rev (dropWhile P (rev t))) = rev (dropWhile P (rev t))"
  by (cases t) (auto simp: dropWhile_append)

lemma dropWhile_rev_dropWhile:
  "dropWhile P (rev (dropWhile P (rev (dropWhile P l)))) = rev (dropWhile P (rev (dropWhile P l)))"
proof (rule dropWhile_rev_dropWhile_hd)
  show "dropWhile P l = [] \<or> \<not> P (hd (dropWhile P l))"
    using hd_dropWhile [of P l] by blast
qed

lemma trim_idem: "trim (trim l) = trim l"
  unfolding trim_def by (simp add: dropWhile_rev_dropWhile)

lemma collapseNewlines_Nil_iff: "collapseNewlines s = [] \<longleftrightarrow> s = []"
  by (induction s rule: collapseNewlines.induct) auto

lemma hd_collapseNewlines: "hd (collapseNewlines s) = hd s"
  by (induction s rule: collapseNewlines.induct) auto

lemma no_double_nl_collapseNewlines: "no_double_nl (collapseNewlines s)"
proof (induction s rule: collapseNewlines.induct)
  case 1
  show ?case by simp
next
  case (2 c)
  show ?case by simp
next
  case (3 c d cs)
  show ?case
  proof (cases "c = nl \<and> d = nl")
    case True
    let ?r = "dropWhile (\<lambda>x. x = nl) cs"
    have h: "?r = [] \<or> hd ?r \<noteq> nl"
      using hd_dropWhile [of "\<lambda>x. x = nl" cs] by blast
    have "no_double_nl (nl # collapseNewlines ?r)"
    proof (cases "collapseNewlines ?r")
      case Nil
      then show ?thesis by simp
    next
      case (Cons x xs)
      then have "?r \<noteq> []" using collapseNewlines_Nil_iff [of ?r] by auto
      with h have "hd ?r \<noteq> nl" by blast
      then have "x \<noteq> nl" using hd_collapseNewlines [of ?r] Cons by simp
      moreover have "no_double_nl (x # xs)" using 3(1) True Cons by simp
      ultimately show ?thesis using Cons by simp
    qed
    with True show ?thesis by simp
  next
    case False
    have ih: "no_double_nl (collapseNewlines (d # cs))" using 3(2) False by simp
    have hdc: "hd (collapseNewlines (d # cs)) = d" using hd_collapseNewlines [of "d # cs"] by simp
    obtain x xs where cx: "collapseNewlines (d # cs) = x # xs"
      using collapseNewlines_Nil_iff [of "d # cs"] by (cases "collapseNewlines (d # cs)") auto
    with hdc have "x = d" by simp
    with cx ih False show ?thesis by auto
  qed
qed

lemma collapseNewlines_no_double_nl: "no_double_nl s \<Longrightarrow> collapseNewlines s = s"
  by (induction s rule: no_double_nl.induct) auto

lemma split_nl_dropWhile_nl:
  "set (split_nl (dropWhile (\<lambda>x. x = nl) cs)) \<subseteq> set (split_nl cs)"
  by (induction cs) auto

lemma set_split_nl_hd_tl: "set (split_nl s) = insert (hd (split_nl s)) (set (tl (split_nl s)))"
  using split_nl_not_Nil [of s] by (cases "split_nl s") auto

lemma split_nl_collapseNewlines:
  "hd (split_nl (collapseNewlines s)) = hd (split_nl s) \<and>
   set (tl (split_nl (collapseNewlines s))) \<subseteq> set (tl (split_nl s))"
proof (induction s rule: collapseNewlines.induct)
  case 1
  show ?case by simp
next
  case (2 c)
  show ?case by simp
next
  case (3 c d cs)
  show ?case
  proof (cases "c = nl \<and> d = nl")
    case True
    let ?r = "dropWhile (\<lambda>x. x = nl) cs"
    have "set (split_nl (collapseNewlines ?r)) \<subseteq> set (split_nl ?r)"
      using 3(1) True set_split_nl_hd_tl [of "collapseNewlines ?r"] set_split_nl_hd_tl [of ?r]
      by auto
    also have "\<dots> \<subseteq> set (split_nl cs)" by (rule split_nl_dropWhile_nl)
    finally show ?thesis using True by auto
  next
    case False
    then have ih: "hd (split_nl (collapseNewlines (d # cs))) = hd (split_nl (d # cs))"
      "set (tl (split_nl (collapseNewlines (d # cs)))) \<subseteq> set (tl (split_nl (d # cs)))"
      using 3(2) by simp_all
    then have sub: "set (split_nl (collapseNewlines (d # cs))) \<subseteq> set (split_nl (d # cs))"
      using set_split_nl_hd_tl [of "collapseNewlines (d # cs)"] set_split_nl_hd_tl [of "d # cs"]
      by auto
    have eq: "collapseNewlines (c # d # cs) = c # collapseNewlines (d # cs)"
      using False by auto
    show ?thesis
    proof (cases "c = nl")
      case True
      then show ?thesis using sub unfolding eq by simp
    next
      case c: False
      then show ?thesis using ih unfolding eq by simp
    qed
  qed
qed

lemma set_split_nl_collapseNewlines:
  "set (split_nl (collapseNewlines s)) \<subseteq> set (split_nl s)"
  using split_nl_collapseNewlines [of s]
    set_split_nl_hd_tl [of "collapseNewlines s"] set_split_nl_hd_tl [of s]
  by auto

lemma split_nl_trimLines: "split_nl (trimLines s) = map trim (split_nl s)"
  unfolding trimLines_def Let_def
proof (rule split_join_nl)
  show "map trim (split_nl s) \<noteq> []" by (simp add: split_nl_not_Nil)
next
  fix l assume "l \<in> set (map trim (split_nl s))"
  then obtain m where "m \<in> set (split_nl s)" "l = trim m" by auto
  then show "nl \<notin> set l" using split_nl_lines_nl_free [of m s] set_trim [of m] by auto
qed

lemma trimLines_fixed:
  assumes "\<And>l. l \<in> set (split_nl t) \<Longrightarrow> trim l = l"
  shows "trimLines t = t"
proof -
  have "map trim (split_nl t) = split_nl t"
    using assms by (simp add: map_idI)
  then show ?thesis by (simp add: trimLines_def join_split_nl)
qed

text \<open>
  Claim C7. The normalization of the metric, \<open>trimLines\<close> followed by
  \<open>collapseNewlines\<close>, is idempotent: normalizing a normalized string changes nothing.
\<close>

theorem normalization_idempotent:
  "collapseNewlines (trimLines (collapseNewlines (trimLines s))) = collapseNewlines (trimLines s)"
proof -
  let ?t = "collapseNewlines (trimLines s)"
  have "trimLines ?t = ?t"
  proof (rule trimLines_fixed)
    fix l assume "l \<in> set (split_nl ?t)"
    then have "l \<in> set (split_nl (trimLines s))"
      using set_split_nl_collapseNewlines [of "trimLines s"] by auto
    then have "l \<in> set (map trim (split_nl s))" by (simp add: split_nl_trimLines)
    then show "trim l = l" by (auto simp: trim_idem)
  qed
  moreover have "collapseNewlines ?t = ?t"
    by (rule collapseNewlines_no_double_nl) (rule no_double_nl_collapseNewlines)
  ultimately show ?thesis by simp
qed

theorem normalization_idempotent_witness:
  "collapseNewlines (trimLines (collapseNewlines (trimLines [0x20, 0x61, nl, 0x09, nl, nl, 0x62, 0x0D])))
     = [0x61, nl, 0x62]"
  using normalization_idempotent [of "[0x20, 0x61, nl, 0x09, nl, nl, 0x62, 0x0D]"]
  by (simp add: trimLines_def trim_def is_ws_def nl_def)

section \<open>Rounding to the nearest double\<close>

lemma round_half_even_cases:
  "round_half_even x = \<lfloor>x\<rfloor> \<or> (round_half_even x = \<lfloor>x\<rfloor> + 1 \<and> 1 / 2 \<le> x - of_int \<lfloor>x\<rfloor>)"
  by (auto simp: round_half_even_def Let_def)

lemma round_half_even_ge: "of_int N \<le> x \<Longrightarrow> N \<le> round_half_even x"
proof -
  assume "of_int N \<le> x"
  then have "N \<le> \<lfloor>x\<rfloor>" by (simp add: le_floor_iff)
  then show ?thesis using round_half_even_cases [of x] by auto
qed

lemma round_half_even_less_half: "x < of_int N + 1 / 2 \<Longrightarrow> round_half_even x \<le> N"
proof -
  assume a: "x < of_int N + 1 / 2"
  then have f: "\<lfloor>x\<rfloor> \<le> N" by (simp add: floor_le_iff)
  show ?thesis
  proof (cases "\<lfloor>x\<rfloor> = N")
    case True
    then have "x - of_int \<lfloor>x\<rfloor> < 1 / 2" using a by simp
    then show ?thesis using round_half_even_cases [of x] True by auto
  next
    case False
    with f have "\<lfloor>x\<rfloor> + 1 \<le> N" by simp
    then show ?thesis using round_half_even_cases [of x] by auto
  qed
qed

lemma round_half_even_le: "x \<le> of_int N \<Longrightarrow> round_half_even x \<le> N"
  by (rule round_half_even_less_half) simp

lemma round_half_even_of_int: "round_half_even (of_int N) = N"
  using round_half_even_ge [of N "of_int N"] round_half_even_le [of "of_int N" N] by simp

lemma expo_bounds:
  assumes "0 < q"
  shows "2 powi expo q \<le> q \<and> q < 2 powi (expo q + 1)"
proof (cases "1 \<le> q")
  case True
  define n where "n = \<lfloor>q\<rfloor>"
  have n: "0 < n" using True by (simp add: n_def)
  have b: "2 ^ nat (bitlen n - 1) \<le> n" "n < 2 ^ nat (bitlen n)"
    using bitlen_bounds [OF n] by simp_all
  have b1: "1 \<le> bitlen n" using n bitlen_eq_zero_iff [of n] bitlen_nonneg [of n] by linarith
  have e: "expo q = bitlen n - 1" using True by (simp add: expo_def n_def)
  have "(2::rat) powi (bitlen n - 1) = of_int (2 ^ nat (bitlen n - 1))"
    using b1 by (simp add: power_int_def)
  also have "\<dots> \<le> of_int n" using b(1) by (simp only: of_int_le_iff)
  also have "\<dots> \<le> q" by (simp add: n_def)
  finally have lo: "2 powi expo q \<le> q" by (simp only: e)
  have "n + 1 \<le> 2 ^ nat (bitlen n)" using b(2) by simp
  then have "(of_int (n + 1) :: rat) \<le> of_int (2 ^ nat (bitlen n))" by (simp only: of_int_le_iff)
  moreover have "q < of_int (n + 1)" using floor_correct [of q] by (simp add: n_def)
  moreover have "(2::rat) powi (bitlen n - 1 + 1) = of_int (2 ^ nat (bitlen n))"
    using b1 by (simp add: power_int_def)
  ultimately have "q < 2 powi (expo q + 1)" by (simp only: e)
  with lo show ?thesis by simp
next
  case False
  define p where "p = 1 / q"
  define M where "M = \<lceil>p\<rceil> - 1"
  have p1: "1 < p" using False assms by (simp add: p_def)
  then have M: "0 < M" by (simp add: M_def less_ceiling_iff)
  have b: "2 ^ nat (bitlen M - 1) \<le> M" "M < 2 ^ nat (bitlen M)"
    using bitlen_bounds [OF M] by simp_all
  have b1: "1 \<le> bitlen M" using M bitlen_eq_zero_iff [of M] bitlen_nonneg [of M] by linarith
  have e: "expo q = - bitlen M" using False by (simp add: expo_def M_def p_def)
  have Mp: "of_int M < p" by (simp add: M_def) (metis ceiling_less_iff not_less le_less)
  have pM: "p \<le> of_int (M + 1)" by (simp add: M_def)
  have qp: "1 / p = q" using assms by (simp add: p_def)
  have "p \<le> of_int (2 ^ nat (bitlen M))"
    using pM b(2) by (meson add1_zle_eq of_int_le_iff order_trans)
  then have "p \<le> 2 ^ nat (bitlen M)" by simp
  then have "1 / 2 ^ nat (bitlen M) \<le> 1 / p" using p1 by (simp add: frac_le)
  moreover have "(2::rat) powi (- bitlen M) = 1 / 2 ^ nat (bitlen M)"
    using b1 by (simp add: power_int_def field_simps)
  ultimately have lo: "2 powi expo q \<le> q" unfolding e qp by simp
  have "(of_int (2 ^ nat (bitlen M - 1)) :: rat) \<le> of_int M" using b(1) by (simp only: of_int_le_iff)
  also have "\<dots> < p" by (rule Mp)
  finally have "2 ^ nat (bitlen M - 1) < p" by simp
  then have "1 / p < 1 / 2 ^ nat (bitlen M - 1)" by (simp add: frac_less2)
  moreover have "(2::rat) powi (- bitlen M + 1) = 1 / 2 ^ nat (bitlen M - 1)"
  proof (cases "bitlen M = 1")
    case True
    then show ?thesis by simp
  next
    case F: False
    with b1 have "- bitlen M + 1 < 0" by simp
    moreover have "nat (- (- bitlen M + 1)) = nat (bitlen M - 1)" by simp
    ultimately show ?thesis by (simp add: power_int_def field_simps)
  qed
  ultimately have "q < 2 powi (expo q + 1)" unfolding e qp by simp
  with lo show ?thesis by simp
qed


lemma expo_ge: "0 < q \<Longrightarrow> 2 powi k \<le> q \<Longrightarrow> k \<le> expo q"
proof (rule ccontr)
  assume q: "0 < q" "2 powi k \<le> q" and "\<not> k \<le> expo q"
  then have "expo q + 1 \<le> k" by simp
  then have "(2::rat) powi (expo q + 1) \<le> 2 powi k" by (rule power_int_increasing) simp
  with expo_bounds [OF q(1)] q(2) show False by simp
qed


lemma fl64_zero: "fl64 0 = Fin 0"
  by (simp add: fl64_def)


text \<open>The rounding of a positive number, with its exponent and unit in the last place.\<close>

lemma fl64_pos:
  assumes "0 < q"
  shows "fl64 q =
     (if overflow_bound \<le> of_int (round_half_even (q / 2 powi (max (expo q) (- 1022) - 52)))
                           * 2 powi (max (expo q) (- 1022) - 52)
      then PosInf
      else Fin (of_int (round_half_even (q / 2 powi (max (expo q) (- 1022) - 52)))
                  * 2 powi (max (expo q) (- 1022) - 52)))"
  using assms by (simp add: fl64_def Let_def)

lemma two_powi_pos: "(0::rat) < 2 powi k"
  by (rule zero_less_power_int) simp





lemma fl64_nonneg: "0 \<le> q \<Longrightarrow> js_nonneg (fl64 q)"
proof (cases "q = 0")
  case True
  then show ?thesis by (simp add: fl64_zero)
next
  case False
  assume "0 \<le> q"
  with False have q: "0 < q" by simp
  let ?u = "(2::rat) powi (max (expo q) (- 1022) - 52)"
  have "0 \<le> q / ?u" using q two_powi_pos [of "max (expo q) (- 1022) - 52"] by simp
  then have "of_int 0 \<le> q / ?u" by simp
  then have "0 \<le> round_half_even (q / ?u)" by (rule round_half_even_ge)
  then have "0 \<le> of_int (round_half_even (q / ?u)) * ?u"
    using two_powi_pos [of "max (expo q) (- 1022) - 52"] by simp
  then show ?thesis unfolding fl64_pos [OF q] by simp
qed









lemma round_half_even_error: "\<bar>of_int (round_half_even x) - x\<bar> \<le> 1 / 2"
proof -
  have f: "of_int \<lfloor>x\<rfloor> \<le> x" "x < of_int \<lfloor>x\<rfloor> + 1"
    using floor_correct [of x] by simp_all
  show ?thesis
  proof (cases "x - of_int \<lfloor>x\<rfloor> < 1 / 2")
    case True
    then have "round_half_even x = \<lfloor>x\<rfloor>" by (simp add: round_half_even_def Let_def)
    with True f show ?thesis by simp
  next
    case False
    then have r: "round_half_even x = \<lfloor>x\<rfloor> \<and> x - of_int \<lfloor>x\<rfloor> = 1 / 2
        \<or> round_half_even x = \<lfloor>x\<rfloor> + 1"
      by (auto simp: round_half_even_def Let_def)
    with False f show ?thesis by auto
  qed
qed

text \<open>In the normal range the rounding is off by at most the fraction \<open>1 / 2 ^ 53\<close>.\<close>

lemma fl64_relative_error:
  assumes lo: "2 powi (- 1022) \<le> q" and hi: "q \<le> 2 ^ 60"
  shows "\<exists>r. fl64 q = Fin r \<and> \<bar>r - q\<bar> \<le> q / 2 ^ 53"
proof -
  have q: "0 < q" using two_powi_pos [of "- 1022"] lo by (rule less_le_trans)
  define e where "e = expo q"
  define u :: rat where "u = 2 powi (e - 52)"
  define n where "n = round_half_even (q / u)"
  have e: "max (expo q) (- 1022) = e" using expo_ge [OF q lo] by (simp add: e_def)
  have u0: "0 < u" unfolding u_def by (rule two_powi_pos)
  have "(2::rat) powi (e - 52) = 2 powi e * 2 powi (- 52)"
    by (subst power_int_add [symmetric]) simp_all
  then have u: "u = 2 powi e / 2 ^ 52" by (simp add: u_def power_int_minus_divide)
  have "2 powi e \<le> q" using expo_bounds [OF q] by (simp add: e_def)
  then have uq: "u \<le> q / 2 ^ 52" unfolding u by (simp add: divide_le_cancel)
  have "\<bar>of_int n - q / u\<bar> \<le> 1 / 2" unfolding n_def by (rule round_half_even_error)
  then have "\<bar>of_int n - q / u\<bar> * u \<le> 1 / 2 * u" using u0 by (simp only: mult_le_cancel_right_pos)
  moreover have "\<bar>of_int n - q / u\<bar> * u = \<bar>of_int n * u - q\<bar>"
  proof -
    have "\<bar>of_int n - q / u\<bar> * u = \<bar>of_int n - q / u\<bar> * \<bar>u\<bar>" using u0 by simp
    also have "\<dots> = \<bar>(of_int n - q / u) * u\<bar>" by (simp only: abs_mult)
    also have "(of_int n - q / u) * u = of_int n * u - q" using u0 by (simp add: left_diff_distrib)
    finally show ?thesis .
  qed
  ultimately have err: "\<bar>of_int n * u - q\<bar> \<le> u / 2" by simp
  also have "\<dots> \<le> q / 2 ^ 53" using uq by simp
  finally have rel: "\<bar>of_int n * u - q\<bar> \<le> q / 2 ^ 53" .
  have "of_int n * u - q \<le> \<bar>of_int n * u - q\<bar>" by (rule abs_ge_self)
  then have "of_int n * u - q \<le> q / 2 ^ 53" using rel by (rule order_trans)
  then have "of_int n * u \<le> q + q / 2 ^ 53" by (simp only: diff_le_eq add.commute)
  also have "\<dots> \<le> 2 ^ 60 + 2 ^ 60 / 2 ^ 53" using hi by (simp add: add_mono divide_le_cancel)
  also have "\<dots> < 2 ^ 1024"
  proof -
    have "(2::rat) ^ 60 + 2 ^ 60 / 2 ^ 53 \<le> 2 ^ 61" by simp
    also have "(2::rat) ^ 61 < 2 ^ 1024" by (rule power_strict_increasing) simp_all
    finally show ?thesis .
  qed
  finally have "\<not> overflow_bound \<le> of_int n * u" by (simp only: overflow_bound_def not_le)
  then have "fl64 q = Fin (of_int n * u)"
    unfolding fl64_pos [OF q] e n_def u_def by (simp only: if_False)
  with rel show ?thesis by blast
qed

section \<open>Totals accumulated by the metric\<close>

lemma compare_each_totals:
  "lengthOfExpectedTexts (compare_each st ps) =
     lengthOfExpectedTexts st + sum_list (map (\<lambda>p. length (expectedText_of p)) ps) \<and>
   lengthOfDiffs (compare_each st ps) =
     lengthOfDiffs st
       + sum_list (map (\<lambda>p. leven (expectedText_of p) (gotText_of (contentFnodes st) p)) ps) \<and>
   contentFnodes (compare_each st ps) = contentFnodes st"
proof (induction ps arbitrary: st)
  case Nil
  show ?case by simp
next
  case (Cons p ps)
  have c: "contentFnodes (compare st (fst p) (snd p)) = contentFnodes st"
    by (simp add: compare_def Let_def)
  show ?case
    using Cons [of "compare st (fst p) (snd p)"] unfolding c
    by (simp add: compare_def Let_def expectedText_of_def gotText_of_def)
qed

lemma js_mul_commute: "js_mul x y = js_mul y x"
  by (cases x; cases y) (auto simp: mult.commute)

lemma score_zero_diffs:
  "lengthOfDiffs st = 0 \<Longrightarrow> 0 < lengthOfExpectedTexts st \<Longrightarrow> score st = Fin 0"
  by (simp add: score_def fl64_zero)

text \<open>Two roundings, of the quotient and of the product, each off by at most one part in \<open>2 ^ 53\<close>.\<close>

lemma percentage_accuracy:
  fixes D E :: rat
  assumes D: "1 \<le> D" "D \<le> 2 ^ 53" and E: "1 \<le> E" "E \<le> 2 ^ 53"
  shows "\<exists>s. js_mul (js_div (Fin D) (Fin E)) (Fin 100) = Fin s \<and>
           \<bar>s - 100 * D / E\<bar> \<le> 100 * D / E / 2 ^ 51"
proof -
  define q where "q = D / E"
  have q0: "0 < q" using D E by (simp add: q_def)
  have qlo: "1 / 2 ^ 53 \<le> q"
  proof -
    have "1 / 2 ^ 53 \<le> 1 / E" using E by (simp add: frac_le)
    also have "\<dots> \<le> D / E" using D E by (simp add: divide_right_mono)
    finally show ?thesis by (simp add: q_def)
  qed
  have qhi: "q \<le> 2 ^ 53"
  proof -
    have "D / E \<le> D / 1" using D E by (intro divide_left_mono) simp_all
    then show ?thesis using D by (simp add: q_def)
  qed
  have tiny: "(2::rat) powi (- 1022) \<le> 1 / 2 ^ 53"
  proof -
    have "(2::rat) powi (- 1022) \<le> 2 powi (- 53)" by (rule power_int_increasing) simp_all
    then show ?thesis by (simp add: power_int_minus_divide)
  qed
  have "2 powi (- 1022) \<le> q" using tiny qlo by (rule order_trans)
  moreover have "q \<le> 2 ^ 60" using qhi by simp
  ultimately obtain a where a: "fl64 q = Fin a" "\<bar>a - q\<bar> \<le> q / 2 ^ 53"
    using fl64_relative_error [of q] by blast
  define c where "c = q / 2 ^ 53"
  have c: "c * 2 ^ 53 = q" by (simp add: c_def)
  have a1: "a - q \<le> c"
    unfolding c_def using abs_ge_self [of "a - q"] a(2) by (rule order_trans)
  have a2: "q - a \<le> c"
    using a(2) abs_ge_minus_self [of "a - q"] by (simp add: c_def)
  have alo: "q / 2 \<le> a" using a2 c q0 by simp
  have "1 / 2 ^ 53 \<le> a * 100" using qlo alo by simp
  with tiny have "2 powi (- 1022) \<le> a * 100" by (rule order_trans)
  moreover have "a * 100 \<le> 2 ^ 60" using a1 c qhi by simp
  ultimately obtain s where s: "fl64 (a * 100) = Fin s" "\<bar>s - a * 100\<bar> \<le> a * 100 / 2 ^ 53"
    using fl64_relative_error [of "a * 100"] by blast
  define c' where "c' = a * 100 / 2 ^ 53"
  define g where "g = 100 * q / 2 ^ 51"
  have c': "c' * 2 ^ 53 = a * 100" by (simp add: c'_def)
  have g: "g * 2 ^ 51 = 100 * q" by (simp add: g_def)
  have s1: "s - a * 100 \<le> c'"
    unfolding c'_def using abs_ge_self [of "s - a * 100"] s(2) by (rule order_trans)
  have s2: "a * 100 - s \<le> c'"
    using s(2) abs_ge_minus_self [of "s - a * 100"] by (simp add: c'_def)
  have "s - 100 * q \<le> g" using s1 a1 c c' g q0 by simp
  moreover have "- (s - 100 * q) \<le> g" using s2 a2 a1 c c' g q0 by simp
  ultimately have "\<bar>s - 100 * q\<bar> \<le> g" by (rule abs_leI)
  moreover have "js_mul (js_div (Fin D) (Fin E)) (Fin 100) = Fin s"
    using E a(1) s(1) by (simp add: q_def)
  ultimately show ?thesis by (auto simp: q_def g_def)
qed

section \<open>The score of the metric\<close>

text \<open>
  Claim C1. After any sequence of \<open>compare\<close> calls on a fresh instance, the two totals
  are the sums of the edit distances and of the normalized expected lengths of the pairs
  compared, and \<open>score\<close> is 100 multiplied by the quotient of the first total by the
  second, in double arithmetic: the quotient is rounded, then the product. It is 0 when
  the first total is 0 and the second is not, and where both totals are positive (and
  below \<open>2 ^ 53\<close>) it is a number within one part in \<open>2 ^ 51\<close> of
  \<open>100 * lengthOfDiffs / lengthOfExpectedTexts\<close>.
\<close>

theorem score_is_percentage_of_totals:
  "stats = compare_each (DiffStats_new ext cf) docPairs \<Longrightarrow>
   lengthOfDiffs stats =
     sum_list (map (\<lambda>p. leven (expectedText_of p) (gotText_of (contentFnodes stats) p)) docPairs) \<and>
   lengthOfExpectedTexts stats = sum_list (map (\<lambda>p. length (expectedText_of p)) docPairs) \<and>
   score stats = js_mul (js_div (Fin (of_nat (lengthOfDiffs stats)))
                                (Fin (of_nat (lengthOfExpectedTexts stats)))) (Fin 100) \<and>
   score stats = js_mul (Fin 100) (js_div (Fin (of_nat (lengthOfDiffs stats)))
                                          (Fin (of_nat (lengthOfExpectedTexts stats)))) \<and>
   (lengthOfDiffs stats = 0 \<and> 0 < lengthOfExpectedTexts stats \<longrightarrow> score stats = Fin 0) \<and>
   (0 < lengthOfDiffs stats \<and> lengthOfDiffs stats < 2 ^ 53 \<and>
    0 < lengthOfExpectedTexts stats \<and> lengthOfExpectedTexts stats < 2 ^ 53 \<longrightarrow>
      (\<exists>s. score stats = Fin s \<and>
           \<bar>s - 100 * of_nat (lengthOfDiffs stats) / of_nat (lengthOfExpectedTexts stats)\<bar>
             \<le> 100 * of_nat (lengthOfDiffs stats) / of_nat (lengthOfExpectedTexts stats)
                  / 2 ^ 51))"
proof -
  assume st: "stats = compare_each (DiffStats_new ext cf) docPairs"
  have z: "lengthOfExpectedTexts (DiffStats_new ext cf) = 0" "lengthOfDiffs (DiffStats_new ext cf) = 0"
    by (simp_all add: DiffStats_new_def)
  have t: "lengthOfDiffs stats =
       sum_list (map (\<lambda>p. leven (expectedText_of p) (gotText_of (contentFnodes stats) p)) docPairs)"
    "lengthOfExpectedTexts stats = sum_list (map (\<lambda>p. length (expectedText_of p)) docPairs)"
    using compare_each_totals [of "DiffStats_new ext cf" docPairs] z unfolding st by simp_all
  have s1: "score stats = js_mul (js_div (Fin (of_nat (lengthOfDiffs stats)))
                                (Fin (of_nat (lengthOfExpectedTexts stats)))) (Fin 100)"
    by (simp only: score_def)
  have s2: "score stats = js_mul (Fin 100) (js_div (Fin (of_nat (lengthOfDiffs stats)))
                                          (Fin (of_nat (lengthOfExpectedTexts stats))))"
    unfolding s1 by (rule js_mul_commute)
  have s3: "lengthOfDiffs stats = 0 \<and> 0 < lengthOfExpectedTexts stats \<longrightarrow> score stats = Fin 0"
    using score_zero_diffs [of stats] by blast
  have s4: "0 < lengthOfDiffs stats \<and> lengthOfDiffs stats < 2 ^ 53 \<and>
    0 < lengthOfExpectedTexts stats \<and> lengthOfExpectedTexts stats < 2 ^ 53 \<longrightarrow>
      (\<exists>s. score stats = Fin s \<and>
           \<bar>s - 100 * of_nat (lengthOfDiffs stats) / of_nat (lengthOfExpectedTexts stats)\<bar>
             \<le> 100 * of_nat (lengthOfDiffs stats) / of_nat (lengthOfExpectedTexts stats)
                  / 2 ^ 51)"
  proof
    assume h: "0 < lengthOfDiffs stats \<and> lengthOfDiffs stats < 2 ^ 53 \<and>
      0 < lengthOfExpectedTexts stats \<and> lengthOfExpectedTexts stats < 2 ^ 53"
    have b: "(1::rat) \<le> of_nat n \<and> (of_nat n :: rat) \<le> 2 ^ 53" if "0 < n" "n < 2 ^ 53" for n :: nat
    proof -
      have "1 \<le> n" "n \<le> 2 ^ 53" using that by simp_all
      then have "(of_nat 1 :: rat) \<le> of_nat n" "(of_nat n :: rat) \<le> of_nat (2 ^ 53)"
        by (simp_all only: of_nat_le_iff)
      then show ?thesis by simp
    qed
    have bd: "(1::rat) \<le> of_nat (lengthOfDiffs stats)" "(of_nat (lengthOfDiffs stats) :: rat) \<le> 2 ^ 53"
      using b [of "lengthOfDiffs stats"] h by simp_all
    have be: "(1::rat) \<le> of_nat (lengthOfExpectedTexts stats)"
      "(of_nat (lengthOfExpectedTexts stats) :: rat) \<le> 2 ^ 53"
      using b [of "lengthOfExpectedTexts stats"] h by simp_all
    show "\<exists>s. score stats = Fin s \<and>
           \<bar>s - 100 * of_nat (lengthOfDiffs stats) / of_nat (lengthOfExpectedTexts stats)\<bar>
             \<le> 100 * of_nat (lengthOfDiffs stats) / of_nat (lengthOfExpectedTexts stats)
                  / 2 ^ 51"
      unfolding s1 by (rule percentage_accuracy [OF bd be])
  qed
  show ?thesis using t s1 s2 s3 s4 by blast
qed

theorem score_is_percentage_of_totals_witness:
  "score (compare_each (DiffStats_new sample_externals None)
            [(sample_doc [0x61, nl, nl, 0x62], sample_doc [0x61, 0x20, nl, 0x63])])
     = Fin (2345624805922133 / 70368744177664) \<and>
   js_mul (Fin 100) (js_div (Fin 1) (Fin 3)) = Fin (2345624805922133 / 70368744177664)"
proof -
  let ?st = "compare_each (DiffStats_new sample_externals None)
            [(sample_doc [0x61, nl, nl, 0x62], sample_doc [0x61, 0x20, nl, 0x63])]"
  have d: "lengthOfDiffs ?st = 1" by code_simp
  have e: "lengthOfExpectedTexts ?st = 3" by code_simp
  have v: "score ?st = Fin (2345624805922133 / 70368744177664)" by code_simp
  note t = score_is_percentage_of_totals [OF refl, of sample_externals None
      "[(sample_doc [0x61, nl, nl, 0x62], sample_doc [0x61, 0x20, nl, 0x63])]"]
  have "score ?st = js_mul (Fin 100) (js_div (Fin (of_nat (lengthOfDiffs ?st)))
                                          (Fin (of_nat (lengthOfExpectedTexts ?st))))"
    using t by blast
  then have "js_mul (Fin 100) (js_div (Fin 1) (Fin 3)) = Fin (2345624805922133 / 70368744177664)"
    unfolding d e v by simp
  with v show ?thesis by simp
qed

text \<open>
  Claim C2, as amended. \<open>score\<close> on an instance on which \<open>compare\<close> was never called
  raises nothing: both totals are 0 and the value returned is \<^verbatim>\<open>NaN\<close>.
\<close>

theorem score_without_comparisons_is_NaN:
  "score (DiffStats_new ext cf) = NaN \<and>
   lengthOfDiffs (DiffStats_new ext cf) = 0 \<and> lengthOfExpectedTexts (DiffStats_new ext cf) = 0"
  by (simp add: score_def DiffStats_new_def)

theorem score_without_comparisons_is_NaN_witness:
  "score (DiffStats_new sample_externals (Some (\<lambda>doc. []))) = NaN"
  using score_without_comparisons_is_NaN [of sample_externals "Some (\<lambda>doc. [])"] by simp

text \<open>
  Claim C2 as stated, that the division by zero surfaces as an error and no \<^verbatim>\<open>NaN\<close>
  is returned, fails on a fresh instance.
\<close>

theorem score_without_comparisons_counterexample:
  "score (DiffStats_new sample_externals None) = NaN"
  by (simp add: score_def DiffStats_new_def)

section \<open>The pipeline's coefficients\<close>

text \<open>
  Claim C3. The score is the inline text length times the length coefficient, but the
  note holds that same product, not the raw inline length: for an element of inline
  length 10 under the default coefficient 2, the note's \<open>inlineLength\<close> is 20.
\<close>

theorem scoreByLength_note_holds_scaled_length:
  "inlineTextLength sample_externals \<lparr> textContent_prop = [1, 2, 3, 4, 5, 6, 7, 8, 9, 10] \<rparr> = 10 \<and>
   coeffLength (bind_parameters []) = Number (Fin 2) \<and>
   scoreByLength sample_externals (bind_parameters [])
      \<lparr> element = \<lparr> textContent_prop = [1, 2, 3, 4, 5, 6, 7, 8, 9, 10] \<rparr>,
        noteFor = (\<lambda>t. \<lparr> inlineLength = Fin 0 \<rparr>) \<rparr>
     = \<lparr> score_prop = Fin 20, note_prop = \<lparr> inlineLength = Fin 20 \<rparr> \<rparr>"
  by code_simp

lemma parameter_argument_fill:
  assumes "i < length D" and "D ! i = Number (Fin d)"
  shows "parameter d (argument (take (length D) cs @ drop (length cs) D) i)
           = parameter d (argument cs i)"
proof (cases "i < length cs")
  case True
  with assms(1) show ?thesis by (auto simp: argument_def nth_append)
next
  case False
  then have "argument cs i = Undefined" by (simp add: argument_def)
  moreover have "argument (take (length D) cs @ drop (length cs) D) i = D ! i"
    using False assms(1) by (simp add: argument_def nth_append min_def)
  ultimately show ?thesis using assms(2) by (simp add: parameter_def)
qed

lemma bind_parameters_fill:
  "bind_parameters (take 7 cs @ drop (length cs) default_coeffs) = bind_parameters cs"
proof -
  have l: "length default_coeffs = 7" by (simp add: default_coeffs_def)
  have n: "default_coeffs ! 0 = Number (Fin (3 / 2))" "default_coeffs ! 1 = Number (Fin (9 / 2))"
    "default_coeffs ! 2 = Number (Fin 2)" "default_coeffs ! 3 = Number (Fin (13 / 2))"
    "default_coeffs ! 4 = Number (Fin 2)" "default_coeffs ! 5 = Number (Fin (1 / 2))"
    "default_coeffs ! 6 = Number (Fin 0)"
    by (simp_all add: default_coeffs_def)
  have p: "\<And>i d. i < 7 \<Longrightarrow> default_coeffs ! i = Number (Fin d) \<Longrightarrow>
      parameter d (argument (take 7 cs @ drop (length cs) default_coeffs) i)
        = parameter d (argument cs i)"
    using parameter_argument_fill [of _ default_coeffs _ cs] l by simp
  show ?thesis
    unfolding bind_parameters_def
    by (simp only: p [OF _ n(1)] p [OF _ n(2)] p [OF _ n(3)] p [OF _ n(4)] p [OF _ n(5)]
        p [OF _ n(6)] p [OF _ n(7)])
qed

lemma tunedContentFnodes_fill:
  "tunedContentFnodes ext (take 7 cs @ drop (length cs) default_coeffs) = tunedContentFnodes ext cs"
  by (simp add: tunedContentFnodes_def bind_parameters_fill)


lemma parameter_argument:
  "parameter d (argument args i)
     = (if i < length args \<and> args ! i \<noteq> Undefined then args ! i else Number (Fin d))"
  by (simp add: parameter_def argument_def split: jsval.splits)

text \<open>
  Claim C4, as amended. \<open>tunedContentFnodes\<close> accepts an argument list of any length
  with any entries and returns a pipeline: a position that is missing or
  \<^verbatim>\<open>undefined\<close> takes its default, positions past the seventh are not read, and
  every other entry is captured as it is, a number or not.
\<close>

theorem tunedContentFnodes_accepts_any_arguments:
  "tunedContentFnodes ext args
     = tunedContentFnodes ext (take 7 args @ drop (length args) default_coeffs) \<and>
   bind_parameters args =
     \<lparr> coeffLinkDensity =
         (if 0 < length args \<and> args ! 0 \<noteq> Undefined then args ! 0 else Number (Fin (3 / 2))),
       coeffParagraphTag =
         (if 1 < length args \<and> args ! 1 \<noteq> Undefined then args ! 1 else Number (Fin (9 / 2))),
       coeffLength =
         (if 2 < length args \<and> args ! 2 \<noteq> Undefined then args ! 2 else Number (Fin 2)),
       coeffDifferentDepth =
         (if 3 < length args \<and> args ! 3 \<noteq> Undefined then args ! 3 else Number (Fin (13 / 2))),
       coeffDifferentTag =
         (if 4 < length args \<and> args ! 4 \<noteq> Undefined then args ! 4 else Number (Fin 2)),
       coeffSameTag =
         (if 5 < length args \<and> args ! 5 \<noteq> Undefined then args ! 5 else Number (Fin (1 / 2))),
       coeffStride =
         (if 6 < length args \<and> args ! 6 \<noteq> Undefined then args ! 6 else Number (Fin 0)) \<rparr>"
proof
  show "tunedContentFnodes ext args
     = tunedContentFnodes ext (take 7 args @ drop (length args) default_coeffs)"
    by (simp only: tunedContentFnodes_fill)
next
  show "bind_parameters args =
     \<lparr> coeffLinkDensity =
         (if 0 < length args \<and> args ! 0 \<noteq> Undefined then args ! 0 else Number (Fin (3 / 2))),
       coeffParagraphTag =
         (if 1 < length args \<and> args ! 1 \<noteq> Undefined then args ! 1 else Number (Fin (9 / 2))),
       coeffLength =
         (if 2 < length args \<and> args ! 2 \<noteq> Undefined then args ! 2 else Number (Fin 2)),
       coeffDifferentDepth =
         (if 3 < length args \<and> args ! 3 \<noteq> Undefined then args ! 3 else Number (Fin (13 / 2))),
       coeffDifferentTag =
         (if 4 < length args \<and> args ! 4 \<noteq> Undefined then args ! 4 else Number (Fin 2)),
       coeffSameTag =
         (if 5 < length args \<and> args ! 5 \<noteq> Undefined then args ! 5 else Number (Fin (1 / 2))),
       coeffStride =
         (if 6 < length args \<and> args ! 6 \<noteq> Undefined then args ! 6 else Number (Fin 0)) \<rparr>"
    unfolding bind_parameters_def by (simp only: parameter_argument)
qed

theorem tunedContentFnodes_accepts_any_arguments_witness:
  "tunedContentFnodes sample_externals [Null, Undefined, Boolean True]
     = tunedContentFnodes sample_externals
         [Null, Undefined, Boolean True, Number (Fin (13 / 2)), Number (Fin 2),
          Number (Fin (1 / 2)), Number (Fin 0)] \<and>
   bind_parameters [Null, Undefined, Boolean True] =
     \<lparr> coeffLinkDensity = Null, coeffParagraphTag = Number (Fin (9 / 2)),
       coeffLength = Boolean True, coeffDifferentDepth = Number (Fin (13 / 2)),
       coeffDifferentTag = Number (Fin 2), coeffSameTag = Number (Fin (1 / 2)),
       coeffStride = Number (Fin 0) \<rparr>"
  using tunedContentFnodes_accepts_any_arguments [of sample_externals "[Null, Undefined, Boolean True]"]
  by (simp add: default_coeffs_def)

text \<open>
  Claim C4 as stated, that a vector of the wrong length fails at construction, fails
  for the empty vector: the pipeline returned is the one of the seven default
  coefficients, and it runs.
\<close>

theorem construction_with_wrong_length_counterexample:
  "length ([] :: jsval list) \<noteq> 7 \<and>
   tunedContentFnodes sample_externals [] = tunedContentFnodes sample_externals default_coeffs \<and>
   tunedContentFnodes sample_externals [] (sample_doc [0x61])
     = [\<lparr> element = \<lparr> textContent_prop = [0x61] \<rparr>,
          noteFor = (\<lambda>t. \<lparr> inlineLength = Fin 0 \<rparr>) \<rparr>]"
  by (simp add: tunedContentFnodes_def bind_parameters_def parameter_def argument_def
      default_coeffs_def sample_externals_def sample_doc_def)

lemma compare_each_foldl:
  "compare_each stats docPairs = foldl (\<lambda>st pair. compare st (fst pair) (snd pair)) stats docPairs"
  by (induction docPairs arbitrary: stats) simp_all

text \<open>
  Claim C5. \<open>deviationScore\<close> with a coefficient vector is the \<open>score\<close> of the
  instance obtained from a fresh one, with both totals 0 and bound to the pipeline built
  from the vector, by one \<open>compare\<close> per pair, in the order of the list; its value is
  100 times the sum of the pairs' edit distances divided by the sum of their normalized
  expected lengths.
\<close>

theorem deviationScore_is_score_of_fresh_stats:
  "deviationScore ext docPairs (Some coeffs) =
     score (foldl (\<lambda>stats pair. compare stats (fst pair) (snd pair))
              \<lparr> lengthOfExpectedTexts = 0, lengthOfDiffs = 0,
                contentFnodes = tunedContentFnodes ext coeffs \<rparr> docPairs) \<and>
   deviationScore ext docPairs (Some coeffs) =
     js_mul (js_div
        (Fin (of_nat (sum_list (map (\<lambda>p. leven (expectedText_of p)
                        (gotText_of (tunedContentFnodes ext coeffs) p)) docPairs))))
        (Fin (of_nat (sum_list (map (\<lambda>p. length (expectedText_of p)) docPairs)))))
       (Fin 100)"
proof -
  let ?s0 = "DiffStats_new ext (Some (tunedContentFnodes ext coeffs))"
  have s0: "?s0 = \<lparr> lengthOfExpectedTexts = 0, lengthOfDiffs = 0,
                contentFnodes = tunedContentFnodes ext coeffs \<rparr>"
    by (simp add: DiffStats_new_def)
  have d: "deviationScore ext docPairs (Some coeffs) = score (compare_each ?s0 docPairs)"
    by (simp add: deviationScore_def Let_def)
  have t: "lengthOfDiffs (compare_each ?s0 docPairs) =
      sum_list (map (\<lambda>p. leven (expectedText_of p)
                        (gotText_of (tunedContentFnodes ext coeffs) p)) docPairs)"
    "lengthOfExpectedTexts (compare_each ?s0 docPairs) =
      sum_list (map (\<lambda>p. length (expectedText_of p)) docPairs)"
    using compare_each_totals [of ?s0 docPairs] by (simp_all add: s0)
  have "deviationScore ext docPairs (Some coeffs) =
     score (foldl (\<lambda>stats pair. compare stats (fst pair) (snd pair))
              \<lparr> lengthOfExpectedTexts = 0, lengthOfDiffs = 0,
                contentFnodes = tunedContentFnodes ext coeffs \<rparr> docPairs)"
    unfolding d compare_each_foldl s0 ..
  moreover have "score (compare_each ?s0 docPairs) =
     js_mul (js_div
        (Fin (of_nat (sum_list (map (\<lambda>p. leven (expectedText_of p)
                        (gotText_of (tunedContentFnodes ext coeffs) p)) docPairs))))
        (Fin (of_nat (sum_list (map (\<lambda>p. length (expectedText_of p)) docPairs)))))
       (Fin 100)"
    unfolding score_def t ..
  ultimately show ?thesis using d by simp
qed

theorem deviationScore_is_score_of_fresh_stats_witness:
  "deviationScore sample_externals
      [(sample_doc [0x61, nl, nl, 0x62], sample_doc [0x61, nl, 0x63]),
       (sample_doc [0x64], sample_doc [0x20, 0x64])] (Some default_coeffs)
     = Fin 25"
proof -
  have v: "score (foldl (\<lambda>stats pair. compare stats (fst pair) (snd pair))
              \<lparr> lengthOfExpectedTexts = 0, lengthOfDiffs = 0,
                contentFnodes = tunedContentFnodes sample_externals default_coeffs \<rparr>
              [(sample_doc [0x61, nl, nl, 0x62], sample_doc [0x61, nl, 0x63]),
               (sample_doc [0x64], sample_doc [0x20, 0x64])]) = Fin 25"
    by code_simp
  show ?thesis
    unfolding deviationScore_is_score_of_fresh_stats [of sample_externals
      "[(sample_doc [0x61, nl, nl, 0x62], sample_doc [0x61, nl, 0x63]),
        (sample_doc [0x64], sample_doc [0x20, 0x64])]" default_coeffs, THEN conjunct1]
    by (rule v)
qed

section \<open>Bounds of the score\<close>

lemma leven_same: "leven s s = 0"
  by (induction s) simp_all

lemma score_nonneg_cases:
  "(lengthOfDiffs st = 0 \<and> lengthOfExpectedTexts st = 0 \<longrightarrow> score st = NaN) \<and>
   (lengthOfDiffs st \<noteq> 0 \<or> lengthOfExpectedTexts st \<noteq> 0 \<longrightarrow> js_nonneg (score st))"
proof -
  let ?d = "of_nat (lengthOfDiffs st) :: rat" and ?e = "of_nat (lengthOfExpectedTexts st) :: rat"
  have n: "js_nonneg (js_mul x (Fin 100))" if "js_nonneg x" for x
  proof (cases x)
    case (Fin a)
    with that have "0 \<le> a * 100" by simp
    then show ?thesis using Fin fl64_nonneg [of "a * 100"] by simp
  qed (use that in simp_all)
  have "js_nonneg (js_div (Fin ?d) (Fin ?e))"
    if "lengthOfDiffs st \<noteq> 0 \<or> lengthOfExpectedTexts st \<noteq> 0"
  proof (cases "lengthOfExpectedTexts st = 0")
    case True
    with that show ?thesis by simp
  next
    case False
    then show ?thesis using fl64_nonneg [of "?d / ?e"] by simp
  qed
  then show ?thesis using n by (auto simp: score_def)
qed

lemma sum_list_length_pos:
  "p \<in> set ps \<Longrightarrow> f p \<noteq> [] \<Longrightarrow> 0 < sum_list (map (\<lambda>p. length (f p)) ps)"
  by (induction ps) auto

text \<open>
  Claim C9, as amended. After any sequence of \<open>compare\<close> calls, \<open>score\<close> is
  \<^verbatim>\<open>NaN\<close> when both totals are 0 and non-negative (a number that is at least 0, or
  \<^verbatim>\<open>Infinity\<close>) otherwise. If in every comparison the extracted text equals the expected
  text after normalization, and some comparison had a non-empty normalized expected text,
  \<open>score\<close> is 0.
\<close>

theorem score_never_negative:
  "stats = compare_each (DiffStats_new ext cf) docPairs \<Longrightarrow>
   (lengthOfDiffs stats = 0 \<and> lengthOfExpectedTexts stats = 0 \<longrightarrow> score stats = NaN) \<and>
   (lengthOfDiffs stats \<noteq> 0 \<or> lengthOfExpectedTexts stats \<noteq> 0 \<longrightarrow> js_nonneg (score stats)) \<and>
   ((\<forall>p \<in> set docPairs. gotText_of (contentFnodes stats) p = expectedText_of p) \<and>
    (\<exists>p \<in> set docPairs. expectedText_of p \<noteq> []) \<longrightarrow> score stats = Fin 0)"
proof -
  assume st: "stats = compare_each (DiffStats_new ext cf) docPairs"
  have z: "lengthOfExpectedTexts (DiffStats_new ext cf) = 0" "lengthOfDiffs (DiffStats_new ext cf) = 0"
    by (simp_all add: DiffStats_new_def)
  have t: "lengthOfDiffs stats =
       sum_list (map (\<lambda>p. leven (expectedText_of p) (gotText_of (contentFnodes stats) p)) docPairs)"
    "lengthOfExpectedTexts stats = sum_list (map (\<lambda>p. length (expectedText_of p)) docPairs)"
    using compare_each_totals [of "DiffStats_new ext cf" docPairs] z unfolding st by simp_all
  have zero: "score stats = Fin 0"
    if eq: "\<forall>p \<in> set docPairs. gotText_of (contentFnodes stats) p = expectedText_of p"
    and ne: "\<exists>p \<in> set docPairs. expectedText_of p \<noteq> []"
  proof -
    have "map (\<lambda>p. leven (expectedText_of p) (gotText_of (contentFnodes stats) p)) docPairs
        = map (\<lambda>p. 0) docPairs"
      using eq by (simp add: leven_same)
    then have d: "lengthOfDiffs stats = 0" unfolding t by simp
    have "0 < lengthOfExpectedTexts stats"
      unfolding t using ne sum_list_length_pos [of _ docPairs expectedText_of] by blast
    with d show ?thesis by (rule score_zero_diffs)
  qed
  show ?thesis using score_nonneg_cases [of stats] zero by blast
qed

theorem score_never_negative_witness:
  "score (compare_each (DiffStats_new sample_externals None)
      [(sample_doc [0x61, nl, nl, 0x62], sample_doc [0x20, 0x61, nl, 0x62, 0x20])]) = Fin 0 \<and>
   js_nonneg (score (compare_each (DiffStats_new sample_externals None)
      [(sample_doc [0x61, nl, nl, 0x62], sample_doc [0x20, 0x61, nl, 0x62, 0x20])]))"
proof -
  let ?ps = "[(sample_doc [0x61, nl, nl, 0x62], sample_doc [0x20, 0x61, nl, 0x62, 0x20])]"
  let ?st = "compare_each (DiffStats_new sample_externals None) ?ps"
  have eq: "\<forall>p \<in> set ?ps. gotText_of (contentFnodes ?st) p = expectedText_of p"
    by (simp add: expectedText_of_def gotText_of_def DiffStats_new_def compare_def
        tunedContentFnodes_def sample_externals_def sample_doc_def textContent_def
        trimLines_def trim_def is_ws_def nl_def)
  have ne: "\<exists>p \<in> set ?ps. expectedText_of p \<noteq> []"
    by (simp add: expectedText_of_def sample_doc_def textContent_def
        trimLines_def trim_def is_ws_def nl_def)
  have "score ?st = Fin 0"
    using score_never_negative [OF refl, of sample_externals None ?ps] eq ne by blast
  then show ?thesis by simp
qed

text \<open>
  Claim C9 as stated, that \<open>score\<close> is non-negative after every sequence of
  \<open>compare\<close> calls, fails after one comparison of an empty expected text with an empty
  extraction, and after no comparison: the value is \<^verbatim>\<open>NaN\<close>, and \<^verbatim>\<open>NaN >= 0\<close> is
  false.
\<close>

theorem score_not_nonnegative_counterexample:
  "\<not> js_nonneg (score (compare_each (DiffStats_new sample_externals None)
        [(sample_doc [], sample_doc [])])) \<and>
   \<not> js_nonneg (score (compare_each (DiffStats_new sample_externals None) []))"
  by code_simp

section \<open>What the normalization does to lines\<close>

lemma drop_inner_blank_Cons:
  "L \<noteq> [] \<Longrightarrow> drop_inner_blank (l # L) = l # filter (\<lambda>x. x \<noteq> []) (butlast L) @ [last L]"
  by (cases L) simp_all

lemma inner_blank_dropWhile:
  "filter (\<lambda>x. x \<noteq> []) (butlast (split_nl (dropWhile (\<lambda>x. x = nl) cs)))
       @ [last (split_nl (dropWhile (\<lambda>x. x = nl) cs))]
     = filter (\<lambda>x. x \<noteq> []) (butlast (split_nl cs)) @ [last (split_nl cs)]"
  by (induction cs) (simp_all add: split_nl_not_Nil)

lemma drop_inner_blank_first_nonblank:
  "r = [] \<or> hd r \<noteq> nl \<Longrightarrow>
   drop_inner_blank (split_nl r)
     = filter (\<lambda>x. x \<noteq> []) (butlast (split_nl r)) @ [last (split_nl r)]"
proof (cases r)
  case Nil
  then show ?thesis by simp
next
  case (Cons x r')
  assume "r = [] \<or> hd r \<noteq> nl"
  with Cons have x: "x \<noteq> nl" by simp
  obtain l ls where sp: "split_nl r' = l # ls"
    using split_nl_not_Nil [of r'] by (cases "split_nl r'") auto
  show ?thesis using Cons x sp by (cases ls) simp_all
qed

lemma drop_inner_blank_push:
  "S \<noteq> [] \<Longrightarrow>
   (c # hd (drop_inner_blank S)) # tl (drop_inner_blank S)
     = drop_inner_blank ((c # hd S) # tl S)"
proof -
  assume "S \<noteq> []"
  then obtain l ls where S: "S = l # ls" by (cases S) auto
  show ?thesis unfolding S by (cases ls) simp_all
qed

lemma split_nl_nl: "split_nl (nl # t) = [] # split_nl t"
  by simp

lemma split_nl_collapseNewlines_lines:
  "split_nl (collapseNewlines s) = drop_inner_blank (split_nl s)"
proof (induction s rule: collapseNewlines.induct)
  case 1
  show ?case by simp
next
  case (2 c)
  show ?case by simp
next
  case (3 c d cs)
  show ?case
  proof (cases "c = nl \<and> d = nl")
    case True
    let ?r = "dropWhile (\<lambda>x. x = nl) cs"
    have h: "?r = [] \<or> hd ?r \<noteq> nl"
      using hd_dropWhile [of "\<lambda>x. x = nl" cs] by blast
    have "split_nl (collapseNewlines (c # d # cs)) = [] # split_nl (collapseNewlines ?r)"
      using True by simp
    also have "\<dots> = [] # drop_inner_blank (split_nl ?r)"
      using 3(1) True by simp
    also have "\<dots> = [] # filter (\<lambda>x. x \<noteq> []) (butlast (split_nl cs)) @ [last (split_nl cs)]"
      by (simp only: drop_inner_blank_first_nonblank [OF h] inner_blank_dropWhile)
    also have "\<dots> = drop_inner_blank (split_nl (c # d # cs))"
      using True by (simp add: split_nl_not_Nil)
    finally show ?thesis .
  next
    case False
    have ih: "split_nl (collapseNewlines (d # cs)) = drop_inner_blank (split_nl (d # cs))"
      using 3(2) False by simp
    have eq: "collapseNewlines (c # d # cs) = c # collapseNewlines (d # cs)"
      using False by auto
    show ?thesis
    proof (cases "c = nl")
      case True
      with False have d: "d \<noteq> nl" by simp
      have f: "drop_inner_blank (split_nl (d # cs))
          = filter (\<lambda>x. x \<noteq> []) (butlast (split_nl (d # cs))) @ [last (split_nl (d # cs))]"
        by (rule drop_inner_blank_first_nonblank) (simp add: d)
      have "split_nl (nl # collapseNewlines (d # cs)) = [] # drop_inner_blank (split_nl (d # cs))"
        by (simp only: split_nl_nl ih)
      also have "\<dots> = drop_inner_blank ([] # split_nl (d # cs))"
        by (simp only: f drop_inner_blank_Cons [OF split_nl_not_Nil])
      also have "\<dots> = drop_inner_blank (split_nl (nl # d # cs))"
        by (simp only: split_nl_nl)
      finally show ?thesis unfolding eq unfolding True .
    next
      case c: False
      have "split_nl (c # collapseNewlines (d # cs))
          = (c # hd (split_nl (collapseNewlines (d # cs)))) # tl (split_nl (collapseNewlines (d # cs)))"
        using c by simp
      also have "\<dots> = drop_inner_blank ((c # hd (split_nl (d # cs))) # tl (split_nl (d # cs)))"
        unfolding ih by (rule drop_inner_blank_push) (rule split_nl_not_Nil)
      also have "\<dots> = drop_inner_blank (split_nl (c # d # cs))"
        using c by simp
      finally show ?thesis unfolding eq .
    qed
  qed
qed

lemma collapseNewlines_lines:
  "collapseNewlines s = join_nl (drop_inner_blank (split_nl s))"
  using join_split_nl [of "collapseNewlines s"] by (simp add: split_nl_collapseNewlines_lines)

text \<open>
  Claim C6, as amended. \<open>compare\<close> adds to the totals the length of the normalized
  expected text and the edit distance between the normalized expected and extracted
  texts. Normalizing trims every line and then replaces every run of two or more line
  feeds by one line feed: on the lines of the text, every empty line other than the first
  and the last line is dropped, so a normalized text has no two neighbouring line feeds
  and keeps no blank line between two lines.
\<close>

theorem compare_accumulates_normalized_texts:
  "compare this expectedDom sourceDom =
     this \<lparr> lengthOfExpectedTexts :=
              lengthOfExpectedTexts this
                + length (collapseNewlines (trimLines (textContent expectedDom))),
            lengthOfDiffs :=
              lengthOfDiffs this
                + leven (collapseNewlines (trimLines (textContent expectedDom)))
                    (collapseNewlines (trimLines (join_nl
                       (map (\<lambda>fnode. textContent_prop (element fnode))
                            (contentFnodes this sourceDom))))) \<rparr> \<and>
   collapseNewlines (trimLines s) = join_nl (drop_inner_blank (map trim (split_nl s))) \<and>
   no_double_nl (collapseNewlines (trimLines s))"
proof (intro conjI)
  show "compare this expectedDom sourceDom =
     this \<lparr> lengthOfExpectedTexts :=
              lengthOfExpectedTexts this
                + length (collapseNewlines (trimLines (textContent expectedDom))),
            lengthOfDiffs :=
              lengthOfDiffs this
                + leven (collapseNewlines (trimLines (textContent expectedDom)))
                    (collapseNewlines (trimLines (join_nl
                       (map (\<lambda>fnode. textContent_prop (element fnode))
                            (contentFnodes this sourceDom))))) \<rparr>"
    by (simp add: compare_def Let_def)
next
  show "collapseNewlines (trimLines s) = join_nl (drop_inner_blank (map trim (split_nl s)))"
    by (simp only: collapseNewlines_lines [of "trimLines s"] split_nl_trimLines)
next
  show "no_double_nl (collapseNewlines (trimLines s))"
    by (rule no_double_nl_collapseNewlines)
qed

theorem compare_accumulates_normalized_texts_witness:
  "lengthOfExpectedTexts (compare (DiffStats_new sample_externals None)
       (sample_doc [0x20, 0x61, nl, nl, nl, 0x62]) (sample_doc [0x61, nl, 0x63])) = 3 \<and>
   lengthOfDiffs (compare (DiffStats_new sample_externals None)
       (sample_doc [0x20, 0x61, nl, nl, nl, 0x62]) (sample_doc [0x61, nl, 0x63])) = 1 \<and>
   collapseNewlines (trimLines [0x20, 0x61, nl, nl, nl, 0x62]) = [0x61, nl, 0x62]"
  using compare_accumulates_normalized_texts [of "DiffStats_new sample_externals None"
      "sample_doc [0x20, 0x61, nl, nl, nl, 0x62]" "sample_doc [0x61, nl, 0x63]"
      "[0x20, 0x61, nl, nl, nl, 0x62]"]
  by (simp add: DiffStats_new_def tunedContentFnodes_def sample_externals_def sample_doc_def
      textContent_def trimLines_def trim_def is_ws_def nl_def)

text \<open>
  Claim C6 as stated, that runs of two or more blank lines become a single blank line,
  fails on \<^verbatim>\<open>"a\n\nb"\<close> and on \<^verbatim>\<open>"a\n\n\nb"\<close>: the code leaves no blank line at
  all, so the length it accumulates for the first text is 3, not 4.
\<close>

theorem blank_lines_not_kept_counterexample:
  "collapseNewlines (trimLines [0x61, nl, nl, 0x62]) = [0x61, nl, 0x62] \<and>
   spec_normalize [0x61, nl, nl, 0x62] = [0x61, nl, nl, 0x62] \<and>
   collapseNewlines (trimLines [0x61, nl, nl, nl, 0x62]) = [0x61, nl, 0x62] \<and>
   spec_normalize [0x61, nl, nl, nl, 0x62] = [0x61, nl, nl, 0x62] \<and>
   lengthOfExpectedTexts (compare (DiffStats_new sample_externals None)
       (sample_doc [0x61, nl, nl, 0x62]) (sample_doc [0x61, nl, nl, 0x62])) = 3 \<and>
   length (spec_normalize [0x61, nl, nl, 0x62]) = 4"
  by (simp add: spec_normalize_def compare_def DiffStats_new_def tunedContentFnodes_def
      sample_externals_def sample_doc_def textContent_def trimLines_def trim_def is_ws_def
      nl_def)

lemma bind_parameters_Nil: "bind_parameters [] = default_coefficients"
  by (simp add: bind_parameters_def parameter_def argument_def default_coefficients_def)

text \<open>
  Claim C10. \<open>deviationScore\<close> with the coefficients omitted, or empty, scores the
  pairs with the pipeline whose captured coefficients are the defaults
  \<^verbatim>\<open>1.5, 4.5, 2, 6.5, 2, 0.5, 0\<close>, and so equals \<open>deviationScore\<close> with that vector.
  With any vector, the pipeline captures at each of the seven positions the entry given
  there, or the default of that position where the vector has no entry (or
  \<^verbatim>\<open>undefined\<close>).
\<close>

theorem deviationScore_missing_coefficients_default:
  "deviationScore ext docPairs None =
     score (compare_each
       \<lparr> lengthOfExpectedTexts = 0, lengthOfDiffs = 0,
         contentFnodes =
           (\<lambda>doc. against_get ext (rules ext default_coefficients) doc ''sortedContent'') \<rparr>
       docPairs) \<and>
   deviationScore ext docPairs (Some []) = deviationScore ext docPairs None \<and>
   deviationScore ext docPairs (Some default_coeffs) = deviationScore ext docPairs None \<and>
   deviationScore ext docPairs (Some coeffs) =
     score (compare_each
       \<lparr> lengthOfExpectedTexts = 0, lengthOfDiffs = 0,
         contentFnodes =
           (\<lambda>doc. against_get ext (rules ext
              \<lparr> coeffLinkDensity =
                  (if 0 < length coeffs \<and> coeffs ! 0 \<noteq> Undefined then coeffs ! 0
                   else Number (Fin (3 / 2))),
                coeffParagraphTag =
                  (if 1 < length coeffs \<and> coeffs ! 1 \<noteq> Undefined then coeffs ! 1
                   else Number (Fin (9 / 2))),
                coeffLength =
                  (if 2 < length coeffs \<and> coeffs ! 2 \<noteq> Undefined then coeffs ! 2
                   else Number (Fin 2)),
                coeffDifferentDepth =
                  (if 3 < length coeffs \<and> coeffs ! 3 \<noteq> Undefined then coeffs ! 3
                   else Number (Fin (13 / 2))),
                coeffDifferentTag =
                  (if 4 < length coeffs \<and> coeffs ! 4 \<noteq> Undefined then coeffs ! 4
                   else Number (Fin 2)),
                coeffSameTag =
                  (if 5 < length coeffs \<and> coeffs ! 5 \<noteq> Undefined then coeffs ! 5
                   else Number (Fin (1 / 2))),
                coeffStride =
                  (if 6 < length coeffs \<and> coeffs ! 6 \<noteq> Undefined then coeffs ! 6
                   else Number (Fin 0)) \<rparr>) doc ''sortedContent'') \<rparr>
       docPairs)"
proof -
  have n: "deviationScore ext docPairs None =
     score (compare_each
       \<lparr> lengthOfExpectedTexts = 0, lengthOfDiffs = 0,
         contentFnodes =
           (\<lambda>doc. against_get ext (rules ext default_coefficients) doc ''sortedContent'') \<rparr>
       docPairs)"
    by (simp add: deviationScore_def DiffStats_new_def tunedContentFnodes_def Let_def
        bind_parameters_Nil)
  have e: "deviationScore ext docPairs (Some []) = deviationScore ext docPairs None"
    by (simp add: deviationScore_def)
  have d: "deviationScore ext docPairs (Some default_coeffs) = deviationScore ext docPairs None"
    using tunedContentFnodes_fill [of ext "[]"] by (simp add: deviationScore_def Let_def)
  have c: "deviationScore ext docPairs (Some coeffs) =
     score (compare_each
       \<lparr> lengthOfExpectedTexts = 0, lengthOfDiffs = 0,
         contentFnodes =
           (\<lambda>doc. against_get ext (rules ext (bind_parameters coeffs)) doc ''sortedContent'') \<rparr>
       docPairs)"
    by (simp add: deviationScore_def DiffStats_new_def tunedContentFnodes_def Let_def)
  show ?thesis
    using n e d c unfolding bind_parameters_def parameter_argument by (intro conjI)
qed

theorem deviationScore_missing_coefficients_default_witness:
  "deviationScore bonus_externals [(sample_doc [0x61], sample_doc [0x61])] None = Fin 0 \<and>
   deviationScore bonus_externals [(sample_doc [0x61], sample_doc [0x61])]
     (Some [Number (Fin 3)]) = Fin 0 \<and>
   deviationScore bonus_externals [(sample_doc [0x61], sample_doc [0x61])]
     (Some [Number (Fin 3), Number (Fin 0)]) = Fin 100"
proof -
  let ?ps = "[(sample_doc [0x61], sample_doc [0x61])]"
  note t = deviationScore_missing_coefficients_default [of bonus_externals ?ps]
  have a: "score (compare_each
       \<lparr> lengthOfExpectedTexts = 0, lengthOfDiffs = 0,
         contentFnodes =
           (\<lambda>doc. against_get bonus_externals (rules bonus_externals default_coefficients)
                     doc ''sortedContent'') \<rparr> ?ps) = Fin 0"
    by code_simp
  have b: "deviationScore bonus_externals ?ps (Some [Number (Fin 3)]) = Fin 0" by code_simp
  have c: "deviationScore bonus_externals ?ps (Some [Number (Fin 3), Number (Fin 0)]) = Fin 100"
    by code_simp
  have "deviationScore bonus_externals ?ps None = Fin 0"
    unfolding t [of "[]", THEN conjunct1] by (rule a)
  with b c show ?thesis by simp
qed

section \<open>The random neighbour\<close>






end
